theory Spec2Isabelle
  imports Main "HOL-Library.Word"
begin

unbundle bit_operations_syntax

section \<open>Filename sanitization\<close>

text \<open>
  Go strings are byte sequences, modelled as \<open>string\<close> (a list of 8-bit characters).
  The server runs \<open>path/filepath\<close> with the Unix separator: \<open>/\<close> is the only byte
  for which \<open>os.IsPathSeparator\<close> holds, and \<open>VolumeName\<close> is always empty.
\<close>

definition backslash :: char where
  "backslash = CHR 0x5C"

definition IsPathSeparator :: "char \<Rightarrow> bool" where
  "IsPathSeparator c = (c = CHR ''/'')"

text \<open>
  \<open>filepath.Base\<close>: the empty path gives \<open>.\<close>; trailing separators are stripped; the
  part after the last separator is kept; a path of separators only gives the separator.
\<close>

definition strip_trailing :: "string \<Rightarrow> string" where
  "strip_trailing path = rev (dropWhile IsPathSeparator (rev path))"

definition last_element :: "string \<Rightarrow> string" where
  "last_element path = rev (takeWhile (\<lambda>c. \<not> IsPathSeparator c) (rev path))"

definition Base :: "string \<Rightarrow> string" where
  "Base path =
     (if path = [] then ''.''
      else let path = last_element (strip_trailing path)
           in if path = [] then ''/'' else path)"

text \<open>
  \<open>strings.ReplaceAll(s, old, new)\<close> for the one-byte \<open>old\<close> and \<open>new\<close> the server
  passes: every occurrence of the byte is replaced.
\<close>

definition ReplaceAll :: "string \<Rightarrow> char \<Rightarrow> char \<Rightarrow> string" where
  "ReplaceAll s old new = map (\<lambda>c. if c = old then new else c) s"

definition sanitizeFilename :: "string \<Rightarrow> string" where
  "sanitizeFilename filename =
     (let base = Base filename;
          base = ReplaceAll base (CHR ''/'') (CHR ''_'');
          base = ReplaceAll base backslash (CHR ''_'')
      in if base = [] \<or> base = ''.'' \<or> base = ''..'' then ''unnamed_file'' else base)"

section \<open>SHA-256 as the server uses it\<close>

text \<open>
  The server hashes with \<open>crypto/sha256\<close>: \<open>sha256.New()\<close>, one \<open>Write\<close> per chunk,
  \<open>Sum(nil)\<close> at the commit. The digest keeps the eight chaining words \<open>h\<close>, the bytes
  of the block not yet complete (\<open>x[:nx]\<close>, so that \<open>nx\<close> is the length of \<open>digest_x\<close>)
  and the number of bytes written so far as a \<open>uint64\<close>.
\<close>

type_synonym bytes = "8 word list"

definition chunk :: nat where "chunk = 64"

definition init_h :: "32 word list" where
  "init_h = [0x6a09e667, 0xbb67ae85, 0x3c6ef372, 0xa54ff53a, 0x510e527f, 0x9b05688c, 0x1f83d9ab, 0x5be0cd19]"

definition K256 :: "32 word list" where
  "K256 =
     [0x428a2f98, 0x71374491, 0xb5c0fbcf, 0xe9b5dba5, 0x3956c25b, 0x59f111f1, 0x923f82a4, 0xab1c5ed5] @
     [0xd807aa98, 0x12835b01, 0x243185be, 0x550c7dc3, 0x72be5d74, 0x80deb1fe, 0x9bdc06a7, 0xc19bf174] @
     [0xe49b69c1, 0xefbe4786, 0x0fc19dc6, 0x240ca1cc, 0x2de92c6f, 0x4a7484aa, 0x5cb0a9dc, 0x76f988da] @
     [0x983e5152, 0xa831c66d, 0xb00327c8, 0xbf597fc7, 0xc6e00bf3, 0xd5a79147, 0x06ca6351, 0x14292967] @
     [0x27b70a85, 0x2e1b2138, 0x4d2c6dfc, 0x53380d13, 0x650a7354, 0x766a0abb, 0x81c2c92e, 0x92722c85] @
     [0xa2bfe8a1, 0xa81a664b, 0xc24b8b70, 0xc76c51a3, 0xd192e819, 0xd6990624, 0xf40e3585, 0x106aa070] @
     [0x19a4c116, 0x1e376c08, 0x2748774c, 0x34b0bcb5, 0x391c0cb3, 0x4ed8aa4a, 0x5b9cca4f, 0x682e6ff3] @
     [0x748f82ee, 0x78a5636f, 0x84c87814, 0x8cc70208, 0x90befffa, 0xa4506ceb, 0xbef9a3f7, 0xc67178f2]"

record digest =
  digest_h :: "32 word list"
  digest_x :: bytes
  digest_len :: "64 word"

text \<open>The block function: message schedule, 64 rounds, addition into the chaining words.\<close>

definition msg_word :: "bytes \<Rightarrow> nat \<Rightarrow> 32 word" where
  "msg_word p i =
     (let j = i * 4
      in push_bit 24 (ucast (p ! j)) OR push_bit 16 (ucast (p ! (j + 1)))
         OR push_bit 8 (ucast (p ! (j + 2))) OR ucast (p ! (j + 3)))"

definition extend_step :: "nat \<Rightarrow> 32 word list \<Rightarrow> 32 word list" where
  "extend_step i w =
     (let v1 = w ! (i - 2);
          t1 = word_rotr 17 v1 XOR word_rotr 19 v1 XOR drop_bit 10 v1;
          v2 = w ! (i - 15);
          t2 = word_rotr 7 v2 XOR word_rotr 18 v2 XOR drop_bit 3 v2
      in w @ [t1 + w ! (i - 7) + t2 + w ! (i - 16)])"

definition schedule :: "bytes \<Rightarrow> 32 word list" where
  "schedule p = fold extend_step [16..<64] (map (msg_word p) [0..<16])"

type_synonym regs = "32 word \<times> 32 word \<times> 32 word \<times> 32 word \<times> 32 word \<times> 32 word \<times> 32 word \<times> 32 word"

definition sha_round :: "32 word list \<Rightarrow> nat \<Rightarrow> regs \<Rightarrow> regs" where
  "sha_round w i = (\<lambda>(a, b, c, d, e, f, g, h).
     let t1 = h + (word_rotr 6 e XOR word_rotr 11 e XOR word_rotr 25 e)
                + ((e AND f) XOR (NOT e AND g)) + K256 ! i + w ! i;
         t2 = (word_rotr 2 a XOR word_rotr 13 a XOR word_rotr 22 a)
                + ((a AND b) XOR (a AND c) XOR (b AND c))
     in (t1 + t2, a, b, c, d + t1, e, f, g))"

definition block1 :: "32 word list \<Rightarrow> bytes \<Rightarrow> 32 word list" where
  "block1 hs p =
     (let w = schedule p;
          (a, b, c, d, e, f, g, h) =
             fold (sha_round w) [0..<64]
               (hs ! 0, hs ! 1, hs ! 2, hs ! 3, hs ! 4, hs ! 5, hs ! 6, hs ! 7)
      in [hs ! 0 + a, hs ! 1 + b, hs ! 2 + c, hs ! 3 + d,
          hs ! 4 + e, hs ! 5 + f, hs ! 6 + g, hs ! 7 + h])"

text \<open>\<open>block\<close> consumes \<open>p\<close> one 64-byte chunk at a time, as long as a whole chunk is left.\<close>

function block :: "32 word list \<Rightarrow> bytes \<Rightarrow> 32 word list" where
  "block hs p = (if length p \<ge> chunk then block (block1 hs p) (drop chunk p) else hs)"
  by pat_completeness auto
termination
  by (relation "measure (\<lambda>(hs, p). length p)") (auto simp: chunk_def)

definition New :: digest where
  "New = \<lparr>digest_h = init_h, digest_x = [], digest_len = 0\<rparr>"

text \<open>
  \<open>Write\<close>: fill the pending block first and hash it when it is complete, hash the
  whole chunks of what is left, keep the remainder.
\<close>

definition Write :: "digest \<Rightarrow> bytes \<Rightarrow> digest" where
  "Write d p =
     (let d = d\<lparr>digest_len := digest_len d + of_nat (length p)\<rparr>;
          (d, p) =
            (if length (digest_x d) > 0
             then let n = min (chunk - length (digest_x d)) (length p);
                      d = d\<lparr>digest_x := digest_x d @ take n p\<rparr>;
                      d = (if length (digest_x d) = chunk
                           then d\<lparr>digest_h := block (digest_h d) (digest_x d), digest_x := []\<rparr>
                           else d)
                  in (d, drop n p)
             else (d, p));
          (d, p) =
            (if length p \<ge> chunk
             then let n = (length p div chunk) * chunk
                  in (d\<lparr>digest_h := block (digest_h d) (take n p)\<rparr>, drop n p)
             else (d, p))
      in if length p > 0 then d\<lparr>digest_x := p\<rparr> else d)"

definition be_bytes32 :: "32 word \<Rightarrow> bytes" where
  "be_bytes32 v = [ucast (drop_bit 24 v), ucast (drop_bit 16 v), ucast (drop_bit 8 v), ucast v]"

definition be_bytes64 :: "64 word \<Rightarrow> bytes" where
  "be_bytes64 v = [ucast (drop_bit 56 v), ucast (drop_bit 48 v), ucast (drop_bit 40 v),
                   ucast (drop_bit 32 v), ucast (drop_bit 24 v), ucast (drop_bit 16 v),
                   ucast (drop_bit 8 v), ucast v]"

text \<open>
  The padding \<open>checkSum\<close> writes for a message of \<open>len\<close> bytes: a one bit, zero bits
  up to 56 bytes modulo 64, then the length in bits as a big-endian \<open>uint64\<close>.
\<close>

definition padlen :: "64 word \<Rightarrow> bytes" where
  "padlen len =
     (let tmp = 0x80 # replicate 71 0;
          t = (if len mod 64 < 56 then 56 - len mod 64 else 64 + 56 - len mod 64);
          len = push_bit 3 len
      in take (unat t) tmp @ be_bytes64 len)"

definition checkSum :: "digest \<Rightarrow> bytes" where
  "checkSum d =
     (let d = Write d (padlen (digest_len d))
      in concat (map be_bytes32 (digest_h d)))"

text \<open>\<open>Sum(in)\<close> appends the checksum of a copy of the digest to \<open>in\<close>.\<close>

definition digest_Sum :: "digest \<Rightarrow> bytes \<Rightarrow> bytes" where
  "digest_Sum d inp = inp @ checkSum d"

text \<open>\<open>hex.EncodeToString\<close>: two lowercase hexadecimal digits per byte.\<close>

definition hextable :: string where
  "hextable = ''0123456789abcdef''"

definition EncodeToString :: "bytes \<Rightarrow> string" where
  "EncodeToString src = concat (map (\<lambda>v. [hextable ! unat (drop_bit 4 v), hextable ! unat (v AND 0x0f)]) src)"

section \<open>Messages, errors and the storage the server writes to\<close>

text \<open>
  The \<open>oneof\<close> payload of an \<open>UploadRequest\<close>; \<open>NoPayload\<close> is the request whose
  payload is not set, which reaches the \<open>default\<close> branch of the type switch.
\<close>

record UploadMetadata =
  Filename :: string
  Title :: string

datatype Payload = Metadata UploadMetadata | Chunk bytes | FinishCommit string | NoPayload

record UploadFileRequest =
  req_Filename :: string
  req_Title :: string
  req_Sha256 :: string
  req_Data :: bytes

text \<open>\<open>Size\<close> is an \<open>int64\<close>: a 64-bit word, read as a signed number with \<open>sint\<close>.\<close>

record UploadResponse =
  Message :: string
  Size :: "64 word"
  HashOk :: bool

datatype Code = Canceled | Unknown | InvalidArgument | DeadlineExceeded | NotFound
  | AlreadyExists | PermissionDenied | ResourceExhausted | FailedPrecondition | Aborted
  | OutOfRange | Unimplemented | Internal | Unavailable | DataLoss | Unauthenticated

text \<open>What \<open>ctx.Err()\<close> returns once \<open>ctx.Done()\<close> is closed.\<close>

datatype ctx_error = ContextCanceled | ContextDeadlineExceeded

datatype error = ConnectError Code string | ContextError ctx_error

type_synonym result = "error + UploadResponse"

text \<open>
  The directory tree the server writes to maps a path to the bytes stored there. Whether
  the operating system lets a call succeed is not decided by the program: the three
  answers are parameters. \<open>write_error\<close> gets the bytes already in the file and the bytes
  to write, and answers with how many bytes were written before the failure.
\<close>

type_synonym filesystem = "string \<rightharpoonup> bytes"

record os_env =
  create_error :: "string \<Rightarrow> string option"
  write_error :: "bytes \<Rightarrow> bytes \<Rightarrow> (nat \<times> string) option"
  remove_error :: "string \<Rightarrow> string option"

text \<open>An \<open>*os.File\<close>: the path it was opened at, and whether it has been closed.\<close>

datatype File = File (file_path: string) (file_closed: bool)

definition uploadDir :: string where
  "uploadDir = ''uploads''"

text \<open>
  \<open>filepath.Join(uploadDir, filename)\<close>. The second element is always what
  \<open>sanitizeFilename\<close> returned: one segment, not empty, not \<open>.\<close> nor \<open>..\<close>, so that the
  \<open>Clean\<close> in \<open>Join\<close> leaves the joined path as it is.
\<close>

definition Join :: "string \<Rightarrow> string \<Rightarrow> string" where
  "Join dir elem = dir @ ''/'' @ elem"

definition content :: "filesystem \<Rightarrow> string \<Rightarrow> bytes" where
  "content fs path = (case fs path of Some b \<Rightarrow> b | None \<Rightarrow> [])"

text \<open>\<open>os.Create\<close>: creates the file or truncates it, and opens it.\<close>

definition Create :: "os_env \<Rightarrow> string \<Rightarrow> filesystem \<Rightarrow> string + (File \<times> filesystem)" where
  "Create env path fs =
     (case create_error env path of
        Some err \<Rightarrow> Inl err
      | None \<Rightarrow> Inr (File path False, fs(path \<mapsto> [])))"

text \<open>\<open>file.Write\<close>: appends at the end of the file; a closed file refuses the write.\<close>

definition File_Write :: "os_env \<Rightarrow> File \<Rightarrow> bytes \<Rightarrow> filesystem \<Rightarrow> string option \<times> filesystem" where
  "File_Write env f b fs =
     (if file_closed f then (Some ''file already closed'', fs)
      else case write_error env (content fs (file_path f)) b of
             Some (n, err) \<Rightarrow> (Some err, fs(file_path f \<mapsto> content fs (file_path f) @ take n b))
           | None \<Rightarrow> (None, fs(file_path f \<mapsto> content fs (file_path f) @ b)))"

definition File_Close :: "File \<Rightarrow> File" where
  "File_Close f = File (file_path f) True"

text \<open>\<open>os.Remove\<close>, whose error the server ignores.\<close>

definition Remove :: "os_env \<Rightarrow> string \<Rightarrow> filesystem \<Rightarrow> filesystem" where
  "Remove env path fs = (case remove_error env path of Some err \<Rightarrow> fs | None \<Rightarrow> fs(path := None))"

section \<open>The streaming upload\<close>

text \<open>The local variables of \<open>Server.Upload\<close> (\<open>file'\<close> is its \<open>file\<close>); \<open>totalSize\<close> is an \<open>int64\<close>.\<close>

record session =
  file' :: "File option"
  filename :: string
  totalSize :: "64 word"
  hasher :: digest

definition session_init :: session where
  "session_init = \<lparr>file' = None, filename = [], totalSize = 0, hasher = New\<rparr>"

text \<open>
  One pass through the body of the \<open>for stream.Receive()\<close> loop, for a message that
  arrives together with what the poll of \<open>ctx.Done()\<close> finds at that moment. The pass
  either returns from \<open>Upload\<close> or goes on to the next message.
\<close>

datatype step = Return result session filesystem | Next session filesystem

fun Upload_msg :: "os_env \<Rightarrow> ctx_error option \<times> Payload \<Rightarrow> session \<Rightarrow> filesystem \<Rightarrow> step" where
  "Upload_msg env (Some cerr, payload) s fs =
     (case file' s of
        Some f \<Rightarrow>
          Return (Inl (ContextError cerr)) (s\<lparr>file' := Some (File_Close f)\<rparr>)
            (Remove env (Join uploadDir (filename s)) fs)
      | None \<Rightarrow> Return (Inl (ContextError cerr)) s fs)"
| "Upload_msg env (None, Metadata md) s fs =
     (if file' s \<noteq> None
      then Return (Inl (ConnectError InvalidArgument ''metadata already received'')) s fs
      else let s = s\<lparr>filename := sanitizeFilename (Filename md)\<rparr>;
               safePath = Join uploadDir (filename s)
           in case Create env safePath fs of
                Inl err \<Rightarrow> Return (Inl (ConnectError Internal err)) s fs
              | Inr (f, fs) \<Rightarrow> Next (s\<lparr>file' := Some f\<rparr>) fs)"
| "Upload_msg env (None, Chunk b) s fs =
     (case file' s of
        None \<Rightarrow> Return (Inl (ConnectError InvalidArgument ''metadata must be sent first'')) s fs
      | Some f \<Rightarrow>
          (case File_Write env f b fs of
             (Some err, fs) \<Rightarrow> Return (Inl (ConnectError Internal err)) s fs
           | (None, fs) \<Rightarrow>
               Next (s\<lparr>hasher := Write (hasher s) b,
                       totalSize := totalSize s + of_nat (length b)\<rparr>) fs))"
| "Upload_msg env (None, FinishCommit clientHash) s fs =
     (case file' s of
        None \<Rightarrow> Return (Inl (ConnectError InvalidArgument ''no file data received'')) s fs
      | Some f \<Rightarrow>
          let serverHash = EncodeToString (digest_Sum (hasher s) [])
          in if serverHash \<noteq> clientHash
             then Return (Inl (ConnectError DataLoss ''checksum mismatch''))
                    (s\<lparr>file' := Some (File_Close f)\<rparr>)
                    (Remove env (Join uploadDir (filename s)) fs)
             else Return (Inr \<lparr>Message = ''Upload successful and verified'',
                                Size = totalSize s, HashOk = True\<rparr>) s fs)"
| "Upload_msg env (None, NoPayload) s fs =
     Return (Inl (ConnectError InvalidArgument ''unknown message type'')) s fs"

text \<open>
  The loop over the messages the stream delivers. When \<open>stream.Receive()\<close> returns false
  the stream has ended, with the error \<open>stream.Err()\<close> reports or without one.
\<close>

fun Upload_loop ::
  "os_env \<Rightarrow> (ctx_error option \<times> Payload) list \<Rightarrow> error option \<Rightarrow> session \<Rightarrow> filesystem
     \<Rightarrow> result \<times> session \<times> filesystem" where
  "Upload_loop env [] stream_err s fs =
     (case stream_err of
        Some err \<Rightarrow> (Inl err, s, fs)
      | None \<Rightarrow> (Inl (ConnectError InvalidArgument ''stream closed without commit''), s, fs))"
| "Upload_loop env (m # ms) stream_err s fs =
     (case Upload_msg env m s fs of
        Return r s fs \<Rightarrow> (r, s, fs)
      | Next s fs \<Rightarrow> Upload_loop env ms stream_err s fs)"

text \<open>
  \<open>Server.Upload\<close>: the loop, then the deferred \<open>file.Close()\<close>, which was registered if
  and only if \<open>os.Create\<close> succeeded. The result comes with the file object as the call
  leaves it and with the directory tree after the call.
\<close>

definition Upload ::
  "os_env \<Rightarrow> (ctx_error option \<times> Payload) list \<Rightarrow> error option \<Rightarrow> filesystem
     \<Rightarrow> result \<times> File option \<times> filesystem" where
  "Upload env msgs stream_err fs =
     (case Upload_loop env msgs stream_err session_init fs of
        (r, s, fs) \<Rightarrow> (r, map_option File_Close (file' s), fs))"

section \<open>The unary upload\<close>

text \<open>\<open>os.WriteFile\<close>: open with create and truncate, write, close.\<close>

definition WriteFile :: "os_env \<Rightarrow> string \<Rightarrow> bytes \<Rightarrow> filesystem \<Rightarrow> string option \<times> filesystem" where
  "WriteFile env path b fs =
     (case Create env path fs of
        Inl err \<Rightarrow> (Some err, fs)
      | Inr (f, fs) \<Rightarrow> File_Write env f b fs)"

definition UploadFile :: "os_env \<Rightarrow> UploadFileRequest \<Rightarrow> filesystem \<Rightarrow> result \<times> filesystem" where
  "UploadFile env req fs =
     (let filename = sanitizeFilename (req_Filename req);
          safePath = Join uploadDir filename;
          hasher = New;
          hasher = Write hasher (req_Data req);
          serverHash = EncodeToString (digest_Sum hasher []);
          hashOk = (serverHash = req_Sha256 req)
      in case WriteFile env safePath (req_Data req) fs of
           (Some err, fs) \<Rightarrow> (Inl (ConnectError Internal err), fs)
         | (None, fs) \<Rightarrow>
             (Inr \<lparr>Message = ''ok'', Size = of_nat (length (req_Data req)), HashOk = hashOk\<rparr>, fs))"

text \<open>An operating system on which no call fails, and an empty directory tree.\<close>

definition reliable_os :: os_env where
  "reliable_os = \<lparr>create_error = (\<lambda>p. None), write_error = (\<lambda>old b. None), remove_error = (\<lambda>p. None)\<rparr>"

definition empty_fs :: filesystem where
  "empty_fs = Map.empty"

text \<open>Every write of the chunks, one after the other onto a file holding \<open>old\<close>, succeeds.\<close>

fun writes_ok :: "os_env \<Rightarrow> bytes \<Rightarrow> bytes list \<Rightarrow> bool" where
  "writes_ok env old [] = True"
| "writes_ok env old (b # bs) = (write_error env old b = None \<and> writes_ok env (old @ b) bs)"

section \<open>Notions the properties are stated with\<close>

text \<open>Chunk messages that arrive while the context is not done.\<close>

definition chunk_msgs :: "bytes list \<Rightarrow> (ctx_error option \<times> Payload) list" where
  "chunk_msgs bs = map (\<lambda>b. (None, Chunk b)) bs"

text \<open>The path an upload with this metadata is stored at.\<close>

definition upload_path :: "UploadMetadata \<Rightarrow> string" where
  "upload_path md = Join uploadDir (sanitizeFilename (Filename md))"

text \<open>The lowercase hexadecimal SHA-256 digest of a byte sequence hashed in one piece.\<close>

definition hexdigest :: "bytes \<Rightarrow> string" where
  "hexdigest b = EncodeToString (digest_Sum (Write New b) [])"

text \<open>
  What \<open>checkSum\<close> relies on when it panics unless \<open>nx\<close> is zero after the padding:
  the pending block holds as many bytes as the length counts modulo the chunk size.
\<close>

definition digest_inv :: "digest \<Rightarrow> bool" where
  "digest_inv d = (length (digest_x d) = unat (digest_len d) mod chunk)"

text \<open>The bytes of \<open>abc\<close>, \<open>def\<close> and \<open>abcdef\<close>, and the metadata of the example upload.\<close>

definition abc :: bytes where
  "abc = [0x61, 0x62, 0x63]"

definition def :: bytes where
  "def = [0x64, 0x65, 0x66]"

definition abcdef :: bytes where
  "abcdef = [0x61, 0x62, 0x63, 0x64, 0x65, 0x66]"

definition report :: UploadMetadata where
  "report = \<lparr>Filename = ''report.pdf'', Title = ''Q1''\<rparr>"

section \<open>Facts about the sanitizer\<close>

lemma Base_not_empty: "Base path \<noteq> []"
  by (simp add: Base_def Let_def)

lemma ReplaceAll_removes: "old \<noteq> new \<Longrightarrow> old \<notin> set (ReplaceAll s old new)"
  by (auto simp: ReplaceAll_def)

lemma ReplaceAll_keeps_out: "c \<notin> set s \<Longrightarrow> c \<noteq> new \<Longrightarrow> c \<notin> set (ReplaceAll s old new)"
  by (auto simp: ReplaceAll_def)

lemma ReplaceAll_empty_iff: "ReplaceAll s old new = [] \<longleftrightarrow> s = []"
  by (simp add: ReplaceAll_def)

lemma ReplaceAll_absent: "old \<notin> set s \<Longrightarrow> ReplaceAll s old new = s"
  by (induction s) (auto simp: ReplaceAll_def)

lemma strip_trailing_slashes:
  "leaf \<noteq> [] \<Longrightarrow> CHR ''/'' \<notin> set leaf \<Longrightarrow>
   strip_trailing (pre @ leaf @ replicate n (CHR ''/'')) = pre @ leaf"
proof -
  assume a: "leaf \<noteq> []" "CHR ''/'' \<notin> set leaf"
  then have "\<not> IsPathSeparator (last leaf)"
    by (metis last_in_set IsPathSeparator_def)
  with a have "dropWhile IsPathSeparator (rev leaf @ rev pre) = rev leaf @ rev pre"
    by (cases leaf rule: rev_cases) auto
  moreover have "dropWhile IsPathSeparator (replicate n (CHR ''/'') @ xs) = dropWhile IsPathSeparator xs" for xs
    by (induction n) (auto simp: IsPathSeparator_def)
  ultimately show ?thesis
    by (simp add: strip_trailing_def)
qed

lemma last_element_after_slash:
  "CHR ''/'' \<notin> set leaf \<Longrightarrow> last_element (dir @ CHR ''/'' # leaf) = leaf"
proof -
  assume a: "CHR ''/'' \<notin> set leaf"
  have "takeWhile (\<lambda>c. \<not> IsPathSeparator c) (rev leaf @ CHR ''/'' # rev dir) = rev leaf"
    using a by (subst takeWhile_append2) (auto simp: IsPathSeparator_def)
  then show ?thesis by (simp add: last_element_def)
qed

lemma last_element_no_slash:
  "CHR ''/'' \<notin> set leaf \<Longrightarrow> last_element leaf = leaf"
proof -
  assume "CHR ''/'' \<notin> set leaf"
  then have "takeWhile (\<lambda>c. \<not> IsPathSeparator c) (rev leaf) = rev leaf"
    by (auto simp: takeWhile_eq_all_conv IsPathSeparator_def)
  then show ?thesis unfolding last_element_def by (simp only: rev_rev_ident)
qed

lemma Base_dir_leaf:
  "leaf \<noteq> [] \<Longrightarrow> CHR ''/'' \<notin> set leaf \<Longrightarrow>
   Base (dir @ ''/'' @ leaf @ replicate n (CHR ''/'')) = leaf"
  using strip_trailing_slashes [of leaf "dir @ ''/''" n]
  by (simp add: Base_def Let_def last_element_after_slash)

lemma Base_leaf:
  "leaf \<noteq> [] \<Longrightarrow> CHR ''/'' \<notin> set leaf \<Longrightarrow> Base (leaf @ replicate n (CHR ''/'')) = leaf"
  using strip_trailing_slashes [of leaf "[]" n]
  by (simp add: Base_def Let_def last_element_no_slash)

lemma Base_slashes: "Base (replicate (Suc n) (CHR ''/'')) = ''/''"
proof -
  have "dropWhile IsPathSeparator (replicate k (CHR ''/'')) = []" for k
    by (induction k) (auto simp: IsPathSeparator_def)
  from this [of "Suc n"] have "strip_trailing (replicate (Suc n) (CHR ''/'')) = []"
    unfolding strip_trailing_def rev_replicate by simp
  then show ?thesis
    unfolding Base_def Let_def by (simp add: last_element_def)
qed

lemma sanitize_of_Base:
  "Base p = leaf \<Longrightarrow> CHR ''/'' \<notin> set leaf \<Longrightarrow> 
   sanitizeFilename p = (if leaf = ''.'' \<or> leaf = ''..'' then ''unnamed_file'' else  ReplaceAll leaf backslash (CHR ''_''))"
  using Base_not_empty[of p]
  apply (simp add: sanitizeFilename_def Let_def ReplaceAll_absent ReplaceAll_empty_iff)
  apply (auto simp: ReplaceAll_def backslash_def Cons_eq_map_conv split: if_splits)
  done

section \<open>Facts about the incremental hash\<close>

lemma msg_word_append:
  "i < 16 \<Longrightarrow> chunk \<le> length a \<Longrightarrow> msg_word (a @ b) i = msg_word a i"
  by (simp add: msg_word_def Let_def nth_append chunk_def)

lemma schedule_append: "chunk \<le> length a \<Longrightarrow> schedule (a @ b) = schedule a"
proof -
  assume a: "chunk \<le> length a"
  have "map (msg_word (a @ b)) [0..<16] = map (msg_word a) [0..<16]"
    using a by (intro map_cong refl) (simp add: msg_word_append)
  then show ?thesis unfolding schedule_def by (simp only:)
qed

lemma block1_append: "chunk \<le> length a \<Longrightarrow> block1 hs (a @ b) = block1 hs a"
  by (simp add: block1_def schedule_append)

lemma block_short: "length p < chunk \<Longrightarrow> block hs p = hs"
  by simp

declare block.simps [simp del]

lemma block_append:
  "chunk dvd length a \<Longrightarrow> block hs (a @ b) = block (block hs a) b"
proof (induction hs a rule: block.induct)
  case (1 hs p)
  show ?case
  proof (cases "chunk \<le> length p")
    case True
    with "1.prems" have d: "chunk dvd length (drop chunk p)"
      by (simp add: dvd_diff_nat)
    have "block hs (p @ b) = block (block1 hs (p @ b)) (drop chunk (p @ b))"
      using True by (subst block.simps) simp
    also have "\<dots> = block (block1 hs p) (drop chunk p @ b)"
      using True by (simp add: block1_append)
    also have "\<dots> = block (block (block1 hs p) (drop chunk p)) b"
      using "1.IH" [OF True d] .
    also have "block (block1 hs p) (drop chunk p) = block hs p"
      using True by (subst (2) block.simps) simp
    finally show ?thesis .
  next
    case False
    with "1.prems" have "p = []"
      by (auto simp: chunk_def dest: dvd_imp_le)
    then show ?thesis
      by (simp add: block_short chunk_def)
  qed
qed

lemma block_whole_chunks:
  "block hs (take (length p div chunk * chunk) p) = block hs p"
proof -
  let ?n = "length p div chunk * chunk"
  have le: "?n \<le> length p" by (simp add: chunk_def)
  have "block hs (take ?n p @ drop ?n p) = block (block hs (take ?n p)) (drop ?n p)"
    by (rule block_append) (simp add: min_absorb2 le)
  moreover have "length (drop ?n p) < chunk"
    by (simp add: chunk_def)
  ultimately show ?thesis
    by (simp add: block_short)
qed

lemma drop_whole_chunks_empty:
  "length p < chunk \<Longrightarrow> drop (length p div chunk * chunk) p = p"
  by simp

lemma Write_eq:
  assumes "length (digest_x d) < chunk"
  shows "Write d p =
     \<lparr>digest_h = block (digest_h d) (digest_x d @ p),
      digest_x = drop (length (digest_x d @ p) div chunk * chunk) (digest_x d @ p),
      digest_len = digest_len d + of_nat (length p)\<rparr>"
proof (cases d)
  case (fields hs xs l)
  with assms have xs: "length xs < chunk" by simp
  show ?thesis
  proof (cases "xs = []")
    case True
    show ?thesis
    proof (cases "chunk \<le> length p")
      case big: True
      then show ?thesis
        using fields \<open>xs = []\<close>
        by (simp add: Write_def Let_def block_whole_chunks)
    next
      case False
      then show ?thesis
        using fields \<open>xs = []\<close>
        by (auto simp add: Write_def Let_def block_short)
    qed
  next
    case False
    show ?thesis
    proof (cases "length xs + length p < chunk")
      case small: True
      then show ?thesis
        using fields \<open>xs \<noteq> []\<close>
        by (simp add: Write_def Let_def block_short min_absorb2)
    next
      case large: False
      define n where "n = chunk - length xs"
      define x' where "x' = xs @ take n p"
      define p' where "p' = drop n p"
      define m where "m = length p' div chunk * chunk"
      have n: "n \<le> length p" "min n (length p) = n"
        using large xs by (simp_all add: n_def)
      have lx: "length x' = chunk"
        using n xs by (simp add: x'_def n_def)
      have ln: "length xs + n = chunk"
        using xs by (simp add: n_def)
      have whole: "block hs' (take m p') = block hs' p'" for hs'
        unfolding m_def by (rule block_whole_chunks)
      have split: "xs @ p = x' @ p'"
        by (simp add: x'_def p'_def)
      have h: "block hs (xs @ p) = block (block hs x') p'"
        unfolding split by (rule block_append) (simp add: lx)
      have "(chunk + length p') div chunk = 1 + length p' div chunk"
        by (simp add: chunk_def)
      then have "(chunk + length p') div chunk * chunk = chunk + m"
        by (simp only: m_def add_mult_distrib mult_1)
      then have "drop (length (xs @ p) div chunk * chunk) (xs @ p) = drop m p'"
        unfolding split by (simp add: lx)
      moreover have "Write d p =
          \<lparr>digest_h = block (block hs x') p', digest_x = drop m p',
           digest_len = l + of_nat (length p)\<rparr>"
      proof (cases "chunk \<le> length p'")
        case True
        then show ?thesis
          using fields \<open>xs \<noteq> []\<close> lx n ln
          by (simp add: Write_def Let_def n_def [symmetric] x'_def [symmetric]
              p'_def [symmetric] m_def [symmetric] whole)
      next
        case False
        then have "m = 0" by (simp add: m_def)
        with False show ?thesis
          using fields \<open>xs \<noteq> []\<close> lx n ln
          by (auto simp add: Write_def Let_def n_def [symmetric] x'_def [symmetric]
              p'_def [symmetric] block_short)
      qed
      ultimately show ?thesis
        using fields h by simp
    qed
  qed
qed

lemma Write_buffer_short:
  "length (digest_x d) < chunk \<Longrightarrow> length (digest_x (Write d p)) < chunk"
  by (simp add: Write_eq chunk_def)

lemma Write_Write:
  assumes "length (digest_x d) < chunk"
  shows "Write (Write d a) b = Write d (a @ b)"
proof -
  let ?xa = "digest_x d @ a"
  define k where "k = length ?xa div chunk * chunk"
  have kd: "chunk dvd k" by (simp add: k_def)
  have kle: "k \<le> length ?xa" by (simp add: k_def chunk_def)
  have short: "length (digest_x (Write d a)) < chunk"
    using assms by (rule Write_buffer_short)
  have wa: "Write d a =
     \<lparr>digest_h = block (digest_h d) ?xa, digest_x = drop k ?xa,
      digest_len = digest_len d + of_nat (length a)\<rparr>"
    using Write_eq [OF assms, of a] by (simp add: k_def)
  have hh: "block (block (digest_h d) ?xa) (drop k ?xa @ b) = block (digest_h d) (?xa @ b)"
  proof -
    have "block (digest_h d) (take k ?xa @ (drop k ?xa @ b)) =
          block (block (digest_h d) (take k ?xa)) (drop k ?xa @ b)"
    proof (rule block_append)
      have "length (take k ?xa) = k"
        using kle by (simp only: length_take min_absorb2)
      with kd show "chunk dvd length (take k ?xa)" by (simp only:)
    qed
    moreover have "block (digest_h d) (take k ?xa) = block (digest_h d) ?xa"
      unfolding k_def by (rule block_whole_chunks)
    moreover have "take k ?xa @ (drop k ?xa @ b) = ?xa @ b"
      by (simp only: append_assoc [symmetric] append_take_drop_id)
    ultimately show ?thesis by (simp only:)
  qed
  define r where "r = length (drop k ?xa @ b)"
  obtain q where q: "k = q * chunk"
    using kd by (auto simp: dvd_def mult.commute)
  have dk: "drop k (?xa @ b) = drop k ?xa @ b"
    using kle by simp
  have len: "length (?xa @ b) = r + q * chunk"
    using kle unfolding r_def q [symmetric] by simp
  have "(r + q * chunk) div chunk = r div chunk + q"
    by (simp add: chunk_def)
  then have "length (?xa @ b) div chunk * chunk = r div chunk * chunk + k"
    unfolding len q by (simp only: add_mult_distrib)
  then have "drop (length (?xa @ b) div chunk * chunk) (?xa @ b) =
        drop (r div chunk * chunk) (drop k (?xa @ b))"
    by (simp only: drop_drop)
  then have xx: "drop (length (?xa @ b) div chunk * chunk) (?xa @ b) =
        drop (r div chunk * chunk) (drop k ?xa @ b)"
    by (simp only: dk)
  have "Write (Write d a) b =
     \<lparr>digest_h = block (block (digest_h d) ?xa) (drop k ?xa @ b),
      digest_x = drop (r div chunk * chunk) (drop k ?xa @ b),
      digest_len = digest_len d + of_nat (length a) + of_nat (length b)\<rparr>"
    unfolding Write_eq [OF short] unfolding wa r_def by simp
  also have "\<dots> = Write d (a @ b)"
    unfolding Write_eq [OF assms, of "a @ b"] hh xx [symmetric] append_assoc
    by (simp add: add.assoc)
  finally show ?thesis .
qed

lemma Write_Nil: "length (digest_x d) < chunk \<Longrightarrow> Write d [] = d"
  by (simp add: Write_eq block_short)

lemma foldl_Write:
  "length (digest_x d) < chunk \<Longrightarrow> foldl Write d bs = Write d (concat bs)"
proof (induction bs arbitrary: d)
  case Nil
  then show ?case by (simp add: Write_Nil)
next
  case (Cons b bs)
  then show ?case
    by (simp add: Write_buffer_short Write_Write)
qed

lemma New_buffer: "length (digest_x New) < chunk"
  by (simp add: New_def chunk_def)

lemma digest_inv_short: "digest_inv d \<Longrightarrow> length (digest_x d) < chunk"
  by (simp add: digest_inv_def chunk_def)

lemma unat_add_mod_chunk:
  "unat (l + of_nat n :: 64 word) mod chunk = (unat l + n) mod chunk"
proof -
  have "unat (l + of_nat n :: 64 word) = (unat l + n) mod 2 ^ 64"
    by (simp add: unat_word_ariths unat_of_nat mod_add_right_eq)
  moreover have "(64::nat) dvd 2 ^ 64" by simp
  ultimately show ?thesis
    by (simp add: chunk_def mod_mod_cancel)
qed

lemma Write_inv: "digest_inv d \<Longrightarrow> digest_inv (Write d p)"
proof -
  assume a: "digest_inv d"
  let ?L = "length (digest_x d) + length p"
  have "?L - ?L div chunk * chunk = ?L mod chunk"
    by (simp add: minus_div_mult_eq_mod)
  moreover have "(unat (digest_len d) + length p) mod chunk = ?L mod chunk"
    using a by (simp add: digest_inv_def mod_add_left_eq)
  ultimately show ?thesis
    by (simp add: digest_inv_def Write_eq [OF digest_inv_short [OF a]] unat_add_mod_chunk)
qed

lemma New_inv: "digest_inv New"
  by (simp add: digest_inv_def New_def)

lemma length_padlen:
  "length (padlen l) = (if unat l mod 64 < 56 then 64 - unat l mod 64 else 128 - unat l mod 64)"
proof -
  define r where "r = l mod 64"
  have ur: "unat r = unat l mod 64"
    by (simp add: r_def unat_mod)
  have r64: "unat r < 64" by (simp add: ur)
  show ?thesis
  proof (cases "r < 56")
    case True
    then have lt: "unat r < 56" by (simp add: word_less_nat_alt)
    then have "unat (56 - r) = 56 - unat r"
      by (subst unat_sub) (simp_all add: word_le_nat_alt)
    with True lt show ?thesis
      by (simp add: padlen_def Let_def r_def [symmetric] be_bytes64_def ur [symmetric])
  next
    case False
    then have ge: "56 \<le> unat r" by (simp add: word_less_nat_alt)
    have "unat (64 + 56 - r) = 120 - unat r"
      using r64 by (subst unat_sub) (simp_all add: word_le_nat_alt)
    with False ge r64 show ?thesis
      by (simp add: padlen_def Let_def r_def [symmetric] be_bytes64_def ur [symmetric])
  qed
qed

lemma checkSum_buffer_empty:
  assumes "digest_inv d"
  shows "digest_x (Write d (padlen (digest_len d))) = []"
proof -
  let ?r = "unat (digest_len d) mod 64"
  have x: "length (digest_x d) = ?r"
    using assms by (simp add: digest_inv_def chunk_def)
  have "length (digest_x d @ padlen (digest_len d)) = 64 \<or>
        length (digest_x d @ padlen (digest_len d)) = 128"
    by (simp add: x length_padlen)
  then have "length (digest_x d @ padlen (digest_len d)) div chunk * chunk =
        length (digest_x d @ padlen (digest_len d))"
    by (auto simp: chunk_def)
  then show ?thesis
    by (simp add: Write_eq [OF digest_inv_short [OF assms]])
qed

lemma foldl_Write_inv: "digest_inv d \<Longrightarrow> digest_inv (foldl Write d bs)"
  by (induction bs arbitrary: d) (simp_all add: Write_inv)

section \<open>Facts about the upload loop\<close>

lemma loop_chunks:
  assumes "file' s = Some f" and "\<not> file_closed f" and "fs (file_path f) = Some old"
    and "writes_ok env old bs" and "length (digest_x (hasher s)) < chunk"
  shows "Upload_loop env (chunk_msgs bs @ rest) serr s fs =
         Upload_loop env rest serr
           (s\<lparr>hasher := Write (hasher s) (concat bs),
              totalSize := totalSize s + of_nat (length (concat bs))\<rparr>)
           (fs(file_path f \<mapsto> old @ concat bs))"
  using assms
proof (induction bs arbitrary: s fs old)
  case Nil
  then show ?case
    by (simp add: chunk_msgs_def Write_Nil fun_upd_idem)
next
  case (Cons b bs)
  let ?s = "s\<lparr>hasher := Write (hasher s) b, totalSize := totalSize s + of_nat (length b)\<rparr>"
  let ?fs = "fs(file_path f \<mapsto> old @ b)"
  have step: "Upload_msg env (None, Chunk b) s fs = Next ?s ?fs"
    using Cons.prems by (simp add: File_Write_def content_def)
  have "Upload_loop env (chunk_msgs (b # bs) @ rest) serr s fs =
        Upload_loop env (chunk_msgs bs @ rest) serr ?s ?fs"
    by (simp add: chunk_msgs_def step del: Upload_msg.simps)
  also have "\<dots> = Upload_loop env rest serr
           (?s\<lparr>hasher := Write (hasher ?s) (concat bs),
              totalSize := totalSize ?s + of_nat (length (concat bs))\<rparr>)
           (?fs(file_path f \<mapsto> (old @ b) @ concat bs))"
    using Cons.prems by (intro Cons.IH) (simp_all add: Write_buffer_short)
  also have "?s\<lparr>hasher := Write (hasher ?s) (concat bs),
              totalSize := totalSize ?s + of_nat (length (concat bs))\<rparr> =
        s\<lparr>hasher := Write (hasher s) (concat (b # bs)),
              totalSize := totalSize s + of_nat (length (concat (b # bs)))\<rparr>"
    using Cons.prems by (simp add: Write_Write add.assoc)
  also have "?fs(file_path f \<mapsto> (old @ b) @ concat bs) =
        fs(file_path f \<mapsto> old @ concat (b # bs))"
    by simp
  finally show ?case .
qed

lemma loop_metadata:
  assumes "create_error env (upload_path md) = None"
  shows "Upload_loop env ((None, Metadata md) # rest) serr session_init fs =
         Upload_loop env rest serr
           \<lparr>file' = Some (File (upload_path md) False),
            filename = sanitizeFilename (Filename md), totalSize = 0, hasher = New\<rparr>
           (fs(upload_path md \<mapsto> []))"
  using assms
  by (simp add: session_init_def Let_def Create_def upload_path_def)

lemma loop_prefix:
  assumes "create_error env (upload_path md) = None" and "writes_ok env [] bs"
  shows "Upload_loop env ((None, Metadata md) # chunk_msgs bs @ rest) serr session_init fs =
         Upload_loop env rest serr
           \<lparr>file' = Some (File (upload_path md) False),
            filename = sanitizeFilename (Filename md),
            totalSize = of_nat (length (concat bs)), hasher = Write New (concat bs)\<rparr>
           (fs(upload_path md \<mapsto> concat bs))"
  unfolding loop_metadata [OF assms(1)]
  by (subst loop_chunks [where f = "File (upload_path md) False" and old = "[]"])
     (simp_all add: assms New_buffer)

lemma msg_success:
  "Upload_msg env m s fs = Return (Inr r) s' fs' \<Longrightarrow>
   HashOk r \<and> (\<exists>h. m = (None, FinishCommit h))"
  by (cases "(env, m, s, fs)" rule: Upload_msg.cases)
     (auto simp: Let_def split: option.splits sum.splits if_splits prod.splits)

lemma loop_success:
  "Upload_loop env ms serr s fs = (Inr r, s', fs') \<Longrightarrow>
   HashOk r \<and> (\<exists>h. (None, FinishCommit h) \<in> set ms)"
proof (induction ms arbitrary: s fs)
  case Nil
  then show ?case by (simp split: option.splits)
next
  case (Cons m ms)
  show ?case
  proof (cases "Upload_msg env m s fs")
    case (Return r0 s0 fs0)
    with Cons.prems have "Upload_msg env m s fs = Return (Inr r) s' fs'" by simp
    from msg_success [OF this] show ?thesis by auto
  next
    case (Next s0 fs0)
    with Cons.prems have "Upload_loop env ms serr s0 fs0 = (Inr r, s', fs')" by simp
    from Cons.IH [OF this] show ?thesis by auto
  qed
qed

section \<open>Evaluation and arithmetic facts\<close>

lemma reliable_create: "create_error reliable_os path = None"
  by (simp add: reliable_os_def)

lemma reliable_remove: "remove_error reliable_os path = None"
  by (simp add: reliable_os_def)

lemma reliable_writes: "writes_ok reliable_os old bs"
  by (induction bs arbitrary: old) (simp_all add: reliable_os_def)

lemma upload_path_report: "upload_path report = ''uploads/report.pdf''"
  by (simp add: upload_path_def report_def Join_def uploadDir_def sanitizeFilename_def Base_def
      strip_trailing_def last_element_def IsPathSeparator_def ReplaceAll_def backslash_def)

lemma abc_def_append: "abc @ def = abcdef"
  by (simp add: abc_def def_def abcdef_def)

lemma length_abc_def: "length abc = 3" "length def = 3" "length abcdef = 6"
  by (simp_all add: abc_def def_def abcdef_def)

lemma hexdigest_abcdef:
  "hexdigest abcdef = ''bef57ec7f53a6d40beb640a780a639c83bc29ac8a9816f1fc6c5c6dcd93c4721''"
  by code_simp


lemma sint_of_nat_64:
  assumes "n < 2 ^ 63"
  shows "sint (of_nat n :: 64 word) = int n"
proof -
  from assms have b: "int n < 2 ^ 63"
    by (metis of_nat_less_iff of_nat_numeral of_nat_power)
  have "sint (of_nat n :: 64 word) = sint (word_of_int (int n) :: 64 word)"
    by simp
  also have "\<dots> = (int n + 2 ^ 63) mod 2 ^ 64 - 2 ^ 63"
    by (subst int_word_sint) simp
  also have "(int n + 2 ^ 63) mod 2 ^ 64 = int n + 2 ^ 63"
    using b by (intro mod_pos_pos_trivial) simp_all
  finally show ?thesis by simp
qed

lemma length_concat_sum: "length (concat bs) = sum_list (map length bs)"
  by (simp add: length_concat)

lemma loop_prefix_end:
  assumes "create_error env (upload_path md) = None" and "writes_ok env [] bs"
  shows "Upload_loop env ((None, Metadata md) # chunk_msgs bs) serr session_init fs =
         Upload_loop env [] serr
           \<lparr>file' = Some (File (upload_path md) False),
            filename = sanitizeFilename (Filename md),
            totalSize = of_nat (length (concat bs)), hasher = Write New (concat bs)\<rparr>
           (fs(upload_path md \<mapsto> concat bs))"
  using loop_prefix [OF assms, of "[]" serr fs] by simp

lemma UploadFile_eq:
  assumes "create_error env (Join uploadDir (sanitizeFilename (req_Filename req))) = None"
    and "write_error env [] (req_Data req) = None"
  shows "UploadFile env req fs =
     (Inr \<lparr>Message = ''ok'', Size = of_nat (length (req_Data req)),
           HashOk = (hexdigest (req_Data req) = req_Sha256 req)\<rparr>,
      fs(Join uploadDir (sanitizeFilename (req_Filename req)) \<mapsto> req_Data req))"
  using assms
  by (simp add: UploadFile_def Let_def WriteFile_def Create_def File_Write_def content_def
      hexdigest_def)

lemma Upload_commit_eq:
  assumes "create_error env (upload_path md) = None" and "writes_ok env [] bs"
  shows "Upload env ((None, Metadata md) # chunk_msgs bs @ (None, FinishCommit clientHash) # rest)
           serr fs =
         (if hexdigest (concat bs) \<noteq> clientHash
          then (Inl (ConnectError DataLoss ''checksum mismatch''),
                Some (File (upload_path md) True),
                Remove env (upload_path md) (fs(upload_path md \<mapsto> concat bs)))
          else (Inr \<lparr>Message = ''Upload successful and verified'',
                      Size = of_nat (length (concat bs)), HashOk = True\<rparr>,
                Some (File (upload_path md) True), fs(upload_path md \<mapsto> concat bs)))"
  by (simp only: Upload_def loop_prefix [OF assms])
     (simp add: hexdigest_def upload_path_def File_Close_def Let_def)

lemma Upload_report_abcdef:
  "Upload reliable_os
     [(None, Metadata report), (None, Chunk abc), (None, Chunk def),
      (None, FinishCommit ''bef57ec7f53a6d40beb640a780a639c83bc29ac8a9816f1fc6c5c6dcd93c4721'')]
     None empty_fs =
   (Inr \<lparr>Message = ''Upload successful and verified'', Size = 6, HashOk = True\<rparr>,
    Some (File ''uploads/report.pdf'' True), empty_fs(''uploads/report.pdf'' \<mapsto> abcdef))"
  using Upload_commit_eq [OF reliable_create reliable_writes, of report "[abc, def]"
      "''bef57ec7f53a6d40beb640a780a639c83bc29ac8a9816f1fc6c5c6dcd93c4721''" "[]" None empty_fs]
  by (simp add: chunk_msgs_def abc_def_append hexdigest_abcdef upload_path_report length_abc_def)

section \<open>The properties\<close>



text \<open>
  Claim C2. Feeding the chunks of any list to the hasher in order, one \<open>Write\<close> per chunk,
  and taking the sum gives the digest of their concatenation written in one piece; and the
  hasher of a session that has received its metadata and these chunks is the hasher fed
  with every chunk once, in the order of receipt.
\<close>

theorem chunking_invariant:
  "digest_Sum (foldl Write New bs) [] = digest_Sum (Write New (concat bs)) [] \<and>
   (create_error env (upload_path md) = None \<and> writes_ok env [] bs \<longrightarrow>
      hasher (fst (snd (Upload_loop env ((None, Metadata md) # chunk_msgs bs) serr session_init fs)))
        = foldl Write New bs)"
proof -
  have f: "foldl Write New bs = Write New (concat bs)"
    by (rule foldl_Write) (rule New_buffer)
  have "hasher (fst (snd (Upload_loop env ((None, Metadata md) # chunk_msgs bs) serr session_init fs)))
        = Write New (concat bs)"
    if "create_error env (upload_path md) = None" "writes_ok env [] bs"
    by (simp only: loop_prefix_end [OF that]) (simp split: option.splits)
  with f show ?thesis by simp
qed

theorem chunking_invariant_witness:
  "create_error reliable_os (upload_path report) = None \<and>
   writes_ok reliable_os [] [abc, def] \<and>
   digest_Sum (foldl Write New [abc, def]) [] = digest_Sum (Write New abcdef) [] \<and>
   hasher (fst (snd (Upload_loop reliable_os
       [(None, Metadata report), (None, Chunk abc), (None, Chunk def)] None session_init empty_fs)))
     = foldl Write New [abc, def]"
  using chunking_invariant [of "[abc, def]" reliable_os report None empty_fs]
    reliable_create reliable_writes
  by (simp add: chunk_msgs_def abc_def_append del: writes_ok.simps Upload_loop.simps)

text \<open>
  Claim C3. A streaming upload that receives its metadata, then chunks, then a commit
  message with the SHA-256 digest of the concatenated chunks returns the success response
  with \<open>HashOk\<close> true and with \<open>Size\<close> the sum of the lengths of the chunks (as an
  \<open>int64\<close>: read as a signed number it is that sum whenever the sum is below \<open>2^63\<close>), and
  the file stored holds exactly the chunks in the order of receipt. The operating system is
  assumed to let the creation and the writes succeed.
\<close>

theorem upload_commit_verified:
  assumes "create_error env (upload_path md) = None"
    and "writes_ok env [] bs"
  shows "Upload env
           ((None, Metadata md) # chunk_msgs bs @ (None, FinishCommit (hexdigest (concat bs))) # rest)
           serr fs =
         (Inr \<lparr>Message = ''Upload successful and verified'',
               Size = of_nat (sum_list (map length bs)), HashOk = True\<rparr>,
          Some (File (upload_path md) True), fs(upload_path md \<mapsto> concat bs)) \<and>
         (sum_list (map length bs) < 2 ^ 63 \<longrightarrow>
            sint (Size (projr (fst (Upload env
              ((None, Metadata md) # chunk_msgs bs @ (None, FinishCommit (hexdigest (concat bs))) # rest)
              serr fs)))) = int (sum_list (map length bs)))"
proof -
  have "Upload env
           ((None, Metadata md) # chunk_msgs bs @ (None, FinishCommit (hexdigest (concat bs))) # rest)
           serr fs =
         (Inr \<lparr>Message = ''Upload successful and verified'',
               Size = of_nat (sum_list (map length bs)), HashOk = True\<rparr>,
          Some (File (upload_path md) True), fs(upload_path md \<mapsto> concat bs))"
    by (simp only: Upload_def loop_prefix [OF assms])
       (simp add: hexdigest_def File_Close_def length_concat_sum)
  then show ?thesis
    by (simp add: sint_of_nat_64)
qed

theorem upload_commit_verified_witness:
  "create_error reliable_os (upload_path report) = None \<and>
   writes_ok reliable_os [] [abc, def] \<and>
   sum_list (map length [abc, def]) < (2::nat) ^ 63 \<and>
   Upload reliable_os
     [(None, Metadata report), (None, Chunk abc), (None, Chunk def),
      (None, FinishCommit ''bef57ec7f53a6d40beb640a780a639c83bc29ac8a9816f1fc6c5c6dcd93c4721'')]
     None empty_fs =
   (Inr \<lparr>Message = ''Upload successful and verified'', Size = 6, HashOk = True\<rparr>,
    Some (File ''uploads/report.pdf'' True), empty_fs(''uploads/report.pdf'' \<mapsto> abcdef)) \<and>
   sint (Size (projr (fst (Upload reliable_os
     [(None, Metadata report), (None, Chunk abc), (None, Chunk def),
      (None, FinishCommit ''bef57ec7f53a6d40beb640a780a639c83bc29ac8a9816f1fc6c5c6dcd93c4721'')]
     None empty_fs)))) = 6"
  using upload_commit_verified [OF reliable_create reliable_writes,
      of report "[abc, def]" "[]" None empty_fs]
    reliable_create reliable_writes
  by (simp add: chunk_msgs_def abc_def_append hexdigest_abcdef upload_path_report
      length_abc_def del: writes_ok.simps)

text \<open>
  Claim C4. Whatever the input, the name \<open>sanitizeFilename\<close> returns contains neither
  \<open>/\<close> nor the back slash, and is neither empty nor \<open>.\<close> nor \<open>..\<close>.
\<close>

theorem sanitizeFilename_safe:
  "CHR ''/'' \<notin> set (sanitizeFilename name) \<and>
   backslash \<notin> set (sanitizeFilename name) \<and>
   sanitizeFilename name \<noteq> [] \<and>
   sanitizeFilename name \<noteq> ''.'' \<and>
   sanitizeFilename name \<noteq> ''..''"
proof -
  let ?b1 = "ReplaceAll (Base name) (CHR ''/'') (CHR ''_'')"
  let ?b2 = "ReplaceAll ?b1 backslash (CHR ''_'')"
  have s: "CHR ''/'' \<notin> set ?b2"
    by (intro ReplaceAll_keeps_out ReplaceAll_removes) simp_all
  have b: "backslash \<notin> set ?b2"
    by (rule ReplaceAll_removes) (simp add: backslash_def)
  show ?thesis
    using s b by (simp add: sanitizeFilename_def Let_def backslash_def)
qed

text \<open>
  Claim C5, as the code has it. The back slash does not separate directories for
  \<open>filepath.Base\<close> on the server's platform: the name \<open>..\..\x\<close> keeps all its
  characters and becomes \<open>.._.._x\<close>, not \<open>x\<close>.
\<close>

theorem sanitizeFilename_backslash_counterexample:
  "sanitizeFilename
     [CHR ''.'', CHR ''.'', backslash, CHR ''.'', CHR ''.'', backslash, CHR ''x'']
     = ''.._.._x''"
  by (simp add: sanitizeFilename_def Base_def strip_trailing_def last_element_def
      IsPathSeparator_def ReplaceAll_def backslash_def)

text \<open>
  Claim C5, amended. Sanitization keeps the last segment that forward slashes delimit:
  the directories before the last forward slash and the forward slashes after the segment
  are dropped. In that segment every back slash becomes an underscore, and the segments
  \<open>.\<close> and \<open>..\<close> give the fallback name \<open>unnamed_file\<close>, as does the empty input; an
  input of forward slashes only gives one underscore.
\<close>

theorem sanitizeFilename_unix:
  "(leaf \<noteq> [] \<and> CHR ''/'' \<notin> set leaf \<longrightarrow>
      sanitizeFilename (dir @ ''/'' @ leaf @ replicate n (CHR ''/'')) = sanitizeFilename leaf \<and>
      sanitizeFilename (leaf @ replicate n (CHR ''/'')) = sanitizeFilename leaf \<and>
      sanitizeFilename leaf =
        (if leaf = ''.'' \<or> leaf = ''..'' then ''unnamed_file''
         else ReplaceAll leaf backslash (CHR ''_''))) \<and>
   sanitizeFilename [] = ''unnamed_file'' \<and>
   sanitizeFilename (replicate (Suc n) (CHR ''/'')) = ''_''"
proof -
  have e: "sanitizeFilename [] = ''unnamed_file''"
    by (simp add: sanitizeFilename_def Base_def ReplaceAll_def backslash_def)
  have sl: "sanitizeFilename (replicate (Suc n) (CHR ''/'')) = ''_''"
    unfolding sanitizeFilename_def Base_slashes by (simp add: ReplaceAll_def backslash_def)
  have "sanitizeFilename (dir @ ''/'' @ leaf @ replicate n (CHR ''/'')) = sanitizeFilename leaf \<and>
      sanitizeFilename (leaf @ replicate n (CHR ''/'')) = sanitizeFilename leaf \<and>
      sanitizeFilename leaf =
        (if leaf = ''.'' \<or> leaf = ''..'' then ''unnamed_file''
         else ReplaceAll leaf backslash (CHR ''_''))"
    if a: "leaf \<noteq> []" "CHR ''/'' \<notin> set leaf"
    using sanitize_of_Base [OF Base_dir_leaf [OF a, of dir n] a(2)]
      sanitize_of_Base [OF Base_leaf [OF a, of n] a(2)]
      sanitize_of_Base [OF Base_leaf [OF a, of 0] a(2)]
    by simp
  with e sl show ?thesis by blast
qed

theorem sanitizeFilename_unix_witness:
  "''passwd'' \<noteq> [] \<and> CHR ''/'' \<notin> set ''passwd'' \<and>
   sanitizeFilename ''../../etc/passwd'' = ''passwd''"
  using sanitizeFilename_unix [of "''passwd''" "''../../etc''" 0]
  by (simp add: ReplaceAll_def backslash_def)

text \<open>
  Claim C6, as the code has it. A second metadata message after the file was created ends
  the upload with the error \<open>metadata already received\<close>, and the file is still there.
\<close>

theorem upload_duplicate_metadata_counterexample:
  "Upload reliable_os
     [(None, Metadata report), (None, Chunk abc), (None, Metadata report)] None empty_fs =
   (Inl (ConnectError InvalidArgument ''metadata already received''),
    Some (File ''uploads/report.pdf'' True), empty_fs(''uploads/report.pdf'' \<mapsto> abc))"
proof -
  have "Upload_loop reliable_os
          ((None, Metadata report) # chunk_msgs [abc] @ [(None, Metadata report)])
          None session_init empty_fs =
        Upload_loop reliable_os [(None, Metadata report)] None
          \<lparr>file' = Some (File (upload_path report) False),
           filename = sanitizeFilename (Filename report),
           totalSize = of_nat (length (concat [abc])), hasher = Write New (concat [abc])\<rparr>
          (empty_fs(upload_path report \<mapsto> concat [abc]))"
    by (rule loop_prefix [OF reliable_create reliable_writes])
  then have "Upload reliable_os
          ((None, Metadata report) # chunk_msgs [abc] @ [(None, Metadata report)])
          None empty_fs =
        (Inl (ConnectError InvalidArgument ''metadata already received''),
         Some (File (upload_path report) True), empty_fs(upload_path report \<mapsto> concat [abc]))"
    by (simp only: Upload_def) (simp add: File_Close_def)
  then show ?thesis
    by (simp add: chunk_msgs_def upload_path_report)
qed

text \<open>
  Claim C6, amended. A streaming upload aborted by a protocol violation after its file was
  created (a second metadata message, or a message with no payload set) returns the error
  with code \<open>InvalidArgument\<close> and closes the file when it returns; the file stays at the
  path it was created at and holds the chunks written so far. The operating system is
  assumed to let the creation and the writes succeed.
\<close>

theorem upload_violation_keeps_file:
  assumes "create_error env (upload_path md) = None"
    and "writes_ok env [] bs"
  shows "Upload env ((None, Metadata md) # chunk_msgs bs @ (None, Metadata md') # rest) serr fs =
           (Inl (ConnectError InvalidArgument ''metadata already received''),
            Some (File (upload_path md) True), fs(upload_path md \<mapsto> concat bs)) \<and>
         Upload env ((None, Metadata md) # chunk_msgs bs @ (None, NoPayload) # rest) serr fs =
           (Inl (ConnectError InvalidArgument ''unknown message type''),
            Some (File (upload_path md) True), fs(upload_path md \<mapsto> concat bs))"
  by (simp only: Upload_def loop_prefix [OF assms]) (simp add: File_Close_def)

theorem upload_violation_keeps_file_witness:
  "create_error reliable_os (upload_path report) = None \<and>
   writes_ok reliable_os [] [abc, def] \<and>
   Upload reliable_os
     [(None, Metadata report), (None, Chunk abc), (None, Chunk def), (None, NoPayload)]
     None empty_fs =
   (Inl (ConnectError InvalidArgument ''unknown message type''),
    Some (File ''uploads/report.pdf'' True), empty_fs(''uploads/report.pdf'' \<mapsto> abcdef))"
  using upload_violation_keeps_file [OF reliable_create reliable_writes,
      of report "[abc, def]" report "[]" None empty_fs]
    reliable_create reliable_writes
  by (simp add: chunk_msgs_def abc_def_append upload_path_report del: writes_ok.simps)

text \<open>
  Claim C7, as the code has it. The unary upload whose claimed digest is not the digest of
  the payload writes the file all the same and answers with a response, \<open>HashOk\<close> false.
\<close>

theorem UploadFile_mismatch_counterexample:
  "UploadFile reliable_os
     \<lparr>req_Filename = ''report.pdf'', req_Title = ''Q1'',
      req_Sha256 = ''9fffe112d28bf3dd9059056e544a47cea1e81041e7f9686bbd71e28ab863327a'',
      req_Data = abcdef\<rparr> empty_fs =
   (Inr \<lparr>Message = ''ok'', Size = 6, HashOk = False\<rparr>,
    empty_fs(''uploads/report.pdf'' \<mapsto> abcdef))"
proof -
  have p: "Join uploadDir (sanitizeFilename ''report.pdf'') = ''uploads/report.pdf''"
    using upload_path_report by (simp add: upload_path_def report_def)
  show ?thesis
    by (subst UploadFile_eq)
       (simp_all add: reliable_os_def p hexdigest_abcdef, simp add: abcdef_def)
qed

text \<open>
  Claim C7, amended. The unary upload does not reject a payload whose digest differs from
  the claimed one: when the operating system lets the file be written, the payload is
  stored at the sanitized path and the response carries the length of the payload and, as
  \<open>HashOk\<close>, whether the claimed digest equals the lowercase hexadecimal SHA-256 digest of
  the payload; with a different digest the file is kept and \<open>HashOk\<close> is false.
\<close>

theorem UploadFile_reports_hash:
  assumes "create_error env (Join uploadDir (sanitizeFilename (req_Filename req))) = None"
    and "write_error env [] (req_Data req) = None"
  shows "UploadFile env req fs =
     (Inr \<lparr>Message = ''ok'', Size = of_nat (length (req_Data req)),
           HashOk = (hexdigest (req_Data req) = req_Sha256 req)\<rparr>,
      fs(Join uploadDir (sanitizeFilename (req_Filename req)) \<mapsto> req_Data req)) \<and>
     (hexdigest (req_Data req) \<noteq> req_Sha256 req \<longrightarrow>
        \<not> HashOk (projr (fst (UploadFile env req fs))) \<and>
        snd (UploadFile env req fs) (Join uploadDir (sanitizeFilename (req_Filename req)))
          = Some (req_Data req))"
  by (simp add: UploadFile_eq [OF assms])

theorem UploadFile_reports_hash_witness:
  "create_error reliable_os (Join uploadDir (sanitizeFilename ''report.pdf'')) = None \<and>
   write_error reliable_os [] abcdef = None \<and>
   hexdigest abcdef \<noteq> ''00'' \<and>
   UploadFile reliable_os
     \<lparr>req_Filename = ''report.pdf'', req_Title = ''Q1'', req_Sha256 = ''00'',
      req_Data = abcdef\<rparr> empty_fs =
   (Inr \<lparr>Message = ''ok'', Size = of_nat (length abcdef), HashOk = False\<rparr>,
    empty_fs(Join uploadDir (sanitizeFilename ''report.pdf'') \<mapsto> abcdef))"
  using UploadFile_reports_hash [of reliable_os
      "\<lparr>req_Filename = ''report.pdf'', req_Title = ''Q1'', req_Sha256 = ''00'',
        req_Data = abcdef\<rparr>" empty_fs]
  by (simp add: reliable_os_def hexdigest_abcdef)

text \<open>
  Claim C8. A streaming upload whose first message is a chunk or a commit returns the
  error with code \<open>InvalidArgument\<close> (\<open>metadata must be sent first\<close>, \<open>no file data
  received\<close>) and no response; no file was opened and the directory tree is as it was.
\<close>

theorem upload_before_metadata:
  "Upload env ((None, Chunk b) # rest) serr fs =
     (Inl (ConnectError InvalidArgument ''metadata must be sent first''), None, fs) \<and>
   Upload env ((None, FinishCommit h) # rest) serr fs =
     (Inl (ConnectError InvalidArgument ''no file data received''), None, fs)"
  by (simp add: Upload_def session_init_def)

text \<open>
  Claim C9, on a cancellation that reaches the server while it waits for the next message.
  \<open>stream.Receive()\<close> then returns false and \<open>stream.Err()\<close> holds the cancellation,
  so that the poll of \<open>ctx.Done()\<close> inside the loop is not reached. \<open>Upload\<close> returns
  that error as it is and, of the cleanup, only the deferred \<open>Close\<close> runs: the file
  written so far is still at the path it was created at. Here the metadata and one chunk
  were handled before the cancellation.
\<close>

theorem upload_cancel_at_receive_keeps_file:
  "Upload reliable_os [(None, Metadata report), (None, Chunk abc)]
     (Some (ConnectError Canceled ''context canceled'')) empty_fs =
   (Inl (ConnectError Canceled ''context canceled''),
    Some (File ''uploads/report.pdf'' True), empty_fs(''uploads/report.pdf'' \<mapsto> abc))"
proof -
  have "Upload reliable_os ((None, Metadata report) # chunk_msgs [abc])
          (Some (ConnectError Canceled ''context canceled'')) empty_fs =
        (Inl (ConnectError Canceled ''context canceled''),
         Some (File (upload_path report) True), empty_fs(upload_path report \<mapsto> concat [abc]))"
    by (simp only: Upload_def loop_prefix_end [OF reliable_create reliable_writes])
       (simp add: File_Close_def)
  then show ?thesis
    by (simp add: chunk_msgs_def upload_path_report)
qed

text \<open>
  Claim C10. A streaming upload returns a response only from the branch of a commit
  message, and the response has \<open>HashOk\<close> true; a stream that ends after the metadata and
  any chunks without a commit message gives the error \<open>stream closed without commit\<close>.
\<close>

theorem upload_success_needs_commit:
  "(fst (Upload env ms serr fs) = Inr r \<longrightarrow>
      HashOk r \<and> (\<exists>h. (None, FinishCommit h) \<in> set ms)) \<and>
   (create_error env (upload_path md) = None \<and> writes_ok env [] bs \<longrightarrow>
      fst (Upload env ((None, Metadata md) # chunk_msgs bs) None fs) =
        Inl (ConnectError InvalidArgument ''stream closed without commit''))"
proof -
  have a: "HashOk r \<and> (\<exists>h. (None, FinishCommit h) \<in> set ms)"
    if "fst (Upload env ms serr fs) = Inr r"
  proof -
    obtain r0 s0 fs0 where l: "Upload_loop env ms serr session_init fs = (r0, s0, fs0)"
      by (cases "Upload_loop env ms serr session_init fs") auto
    with that have "r0 = Inr r" by (simp add: Upload_def)
    with l show ?thesis using loop_success by blast
  qed
  have b: "fst (Upload env ((None, Metadata md) # chunk_msgs bs) None fs) =
        Inl (ConnectError InvalidArgument ''stream closed without commit'')"
    if "create_error env (upload_path md) = None" "writes_ok env [] bs"
    by (simp only: Upload_def loop_prefix_end [OF that]) simp
  from a b show ?thesis by blast
qed

theorem upload_success_needs_commit_witness:
  "fst (Upload reliable_os
     [(None, Metadata report), (None, Chunk abc), (None, Chunk def),
      (None, FinishCommit ''bef57ec7f53a6d40beb640a780a639c83bc29ac8a9816f1fc6c5c6dcd93c4721'')]
     None empty_fs) =
     Inr \<lparr>Message = ''Upload successful and verified'', Size = 6, HashOk = True\<rparr> \<and>
   create_error reliable_os (upload_path report) = None \<and>
   writes_ok reliable_os [] [abc, def] \<and>
   fst (Upload reliable_os [(None, Metadata report), (None, Chunk abc), (None, Chunk def)]
     None empty_fs) = Inl (ConnectError InvalidArgument ''stream closed without commit'')"
  using upload_success_needs_commit [of reliable_os
      "[(None, Metadata report), (None, Chunk abc), (None, Chunk def),
        (None, FinishCommit ''bef57ec7f53a6d40beb640a780a639c83bc29ac8a9816f1fc6c5c6dcd93c4721'')]"
      None empty_fs "\<lparr>Message = ''Upload successful and verified'', Size = 6, HashOk = True\<rparr>"
      report "[abc, def]"]
    Upload_report_abcdef reliable_create reliable_writes
  by (simp add: chunk_msgs_def del: writes_ok.simps)

section \<open>Further properties\<close>

text \<open>
  The check \<open>d.nx != 0\<close> on which \<open>checkSum\<close> panics never fires: whatever was written
  to a new hasher, the padding completes the last block and leaves no pending byte.
\<close>

theorem checkSum_never_panics:
  "digest_x (Write (foldl Write New bs) (padlen (digest_len (foldl Write New bs)))) = []"
  by (rule checkSum_buffer_empty) (rule foldl_Write_inv [OF New_inv])

text \<open>
  When the stream ends with an error after the metadata and any chunks, \<open>Upload\<close> returns
  that error as it is and closes the file on return; the file is not removed and holds the
  chunks written so far. The operating system is assumed to let the creation and the
  writes succeed.
\<close>

theorem upload_stream_error_keeps_file:
  assumes "create_error env (upload_path md) = None"
    and "writes_ok env [] bs"
  shows "Upload env ((None, Metadata md) # chunk_msgs bs) (Some err) fs =
         (Inl err, Some (File (upload_path md) True), fs(upload_path md \<mapsto> concat bs))"
  by (simp only: Upload_def loop_prefix_end [OF assms]) (simp add: File_Close_def)

theorem upload_stream_error_keeps_file_witness:
  "create_error reliable_os (upload_path report) = None \<and>
   writes_ok reliable_os [] [abc, def] \<and>
   Upload reliable_os [(None, Metadata report), (None, Chunk abc), (None, Chunk def)]
     (Some (ConnectError Canceled ''context canceled'')) empty_fs =
   (Inl (ConnectError Canceled ''context canceled''),
    Some (File ''uploads/report.pdf'' True), empty_fs(''uploads/report.pdf'' \<mapsto> abcdef))"
  using upload_stream_error_keeps_file [OF reliable_create reliable_writes,
      of report "[abc, def]" "ConnectError Canceled ''context canceled''" empty_fs]
    reliable_create reliable_writes
  by (simp add: chunk_msgs_def abc_def_append upload_path_report del: writes_ok.simps)

text \<open>
  When the poll of the context inside the loop finds it done after the metadata and any
  number of chunks, none included, have been handled, the upload closes the file, removes
  it from the path it was created at and returns the error of the context, which is not an
  error of a failed write. The operating system is assumed to let the creation, the writes
  and the removal succeed.
\<close>

theorem upload_cancelled:
  assumes "create_error env (upload_path md) = None"
    and "writes_ok env [] bs"
    and "remove_error env (upload_path md) = None"
  shows "Upload env ((None, Metadata md) # chunk_msgs bs @ (Some cerr, payload) # rest) serr fs =
         (Inl (ContextError cerr), Some (File (upload_path md) True), fs(upload_path md := None))"
  using assms(3)
  by (simp only: Upload_def loop_prefix [OF assms(1,2)])
     (simp add: Remove_def upload_path_def File_Close_def)

theorem upload_cancelled_witness:
  "create_error reliable_os (upload_path report) = None \<and>
   writes_ok reliable_os [] [abc, def] \<and>
   remove_error reliable_os (upload_path report) = None \<and>
   Upload reliable_os
     [(None, Metadata report), (None, Chunk abc), (None, Chunk def),
      (Some ContextCanceled, Chunk abc)] None empty_fs =
   (Inl (ContextError ContextCanceled),
    Some (File ''uploads/report.pdf'' True), empty_fs(''uploads/report.pdf'' := None))"
  using upload_cancelled [OF reliable_create reliable_writes reliable_remove,
      of report "[abc, def]" ContextCanceled "Chunk abc" "[]" None empty_fs]
    reliable_create reliable_writes reliable_remove
  by (simp add: chunk_msgs_def upload_path_report del: writes_ok.simps)

end
